theory Spec2Isabelle
  imports Main "HOL-Library.Sublist"
begin

section \<open>Data model\<close>

text \<open>
  Strings are byte lists. Go's \<open>int\<close> is modelled by \<open>int\<close> where a value can be
  negative (the \<open>limit\<close> argument of the read queries) and by \<open>nat\<close> where it is a
  length, a byte offset or a counter that starts at zero and is only incremented; the
  line counter of a file never exceeds the file's byte offset, which the operating
  system keeps below \<open>2^63\<close>, so no counter wraps. \<open>time.Time\<close> values are natural
  numbers. Fields that none of the modelled functions reads or writes (file handles,
  channels, contexts, the theme and filter tables, the access log) are left out.
  Where two structs share a field name the selector is written with its record,
  as in \<open>StreamConfig.Name\<close> and \<open>LogGroup.Name\<close>.
\<close>

subsection \<open>internal/config\<close>

record StreamConfig =
  Name :: string
  Path :: string
  Patterns :: "string list"
  Tags :: "string list"
  Color :: string

record Config =
  LogDir :: string
  Streams :: "StreamConfig list"

subsection \<open>internal/logtail\<close>

record LogEntry =
  Timestamp :: nat
  Source :: string
  Content :: string
  Tags :: "string list"
  Filtered :: bool
  LineNumber :: nat

record Stream =
  Config :: StreamConfig
  LineNumber :: nat

text \<open>
  \<open>bufferMu\<close> is the history of the operations performed on the buffer's read/write
  mutex. Every method appends the operations it performs, so that "this call did not
  take the lock" is a statement about the returned state.
\<close>

datatype lockop = Lock | Unlock | RLock | RUnlock

record Manager =
  streams :: "string \<rightharpoonup> Stream"
  buffer :: "LogEntry list"
  bufferMu :: "lockop list"
  tailOnly :: bool

datatype error =
    OpenError string
  | GlobError
  | InvalidPattern string

subsection \<open>internal/mcp\<close>

record LogGroup =
  Name :: string
  Pattern :: string
  Color :: string
  Streams :: "string list"
  CreatedAt :: nat

record Server =
  manager :: Manager
  logGroups :: "string \<rightharpoonup> LogGroup"

datatype MCPError = MCPError int string

datatype panic = Panic string

subsection \<open>The environment: operating system and standard library\<close>

text \<open>
  What the program sees of the file system and of \<open>path/filepath\<close> is a parameter:
  \<open>UserHomeDir\<close> is \<open>os.UserHomeDir\<close> (\<open>None\<close> when it fails), \<open>filepath_Join\<close> is
  \<open>filepath.Join\<close>, \<open>IsNotExist path\<close> tells that \<open>os.Stat path\<close> fails with a
  not-exist error, \<open>filepath_Glob\<close> and \<open>filepath_Match\<close> return \<open>None\<close> for a
  malformed pattern, and \<open>Open path\<close> is the content of the file at the moment it is
  opened (\<open>None\<close> when \<open>os.Open\<close> fails).

  A compiled regular expression is its \<open>MatchString\<close> predicate, and the package
  \<open>regexp\<close> is the parameter \<open>Compile\<close>, which returns the text of the syntax error
  (\<open>Inl\<close>) or the compiled expression.
\<close>

record OS =
  UserHomeDir :: "string option"
  filepath_Join :: "string list \<Rightarrow> string"
  IsNotExist :: "string \<Rightarrow> bool"
  filepath_Glob :: "string \<Rightarrow> string list option"
  filepath_Match :: "string \<Rightarrow> string \<Rightarrow> bool option"
  Open :: "string \<rightharpoonup> string"

type_synonym regexp = "string \<Rightarrow> bool"

type_synonym compiler = "string \<Rightarrow> string + regexp"

section \<open>Package strings and path/filepath\<close>

definition newline :: char where
  "newline = CHR 0x0A"

definition HasPrefix :: "string \<Rightarrow> string \<Rightarrow> bool" where
  "HasPrefix s pfx \<longleftrightarrow> length s \<ge> length pfx \<and> take (length pfx) s = pfx"

definition HasSuffix :: "string \<Rightarrow> string \<Rightarrow> bool" where
  "HasSuffix s sfx \<longleftrightarrow>
     length s \<ge> length sfx \<and> drop (length s - length sfx) s = sfx"

definition TrimPrefix :: "string \<Rightarrow> string \<Rightarrow> string" where
  "TrimPrefix s pfx = (if HasPrefix s pfx then drop (length pfx) s else s)"

definition TrimSuffix :: "string \<Rightarrow> string \<Rightarrow> string" where
  "TrimSuffix s sfx =
     (if HasSuffix s sfx then take (length s - length sfx) s else s)"

text \<open>\<open>strings.Split\<close> at a one-byte separator; the empty string gives one empty field.\<close>

fun Split :: "string \<Rightarrow> char \<Rightarrow> string list" where
  "Split [] sep = [[]]"
| "Split (c # cs) sep =
     (if c = sep then [] # Split cs sep
      else (case Split cs sep of
              [] \<Rightarrow> [[c]]
            | w # ws \<Rightarrow> (c # w) # ws))"

text \<open>
  \<open>strings.TrimSpace\<close> removes leading and trailing white space as Unicode defines it
  (\<open>unicode.IsSpace\<close>): the six ASCII characters; U+0085 and U+00A0, which UTF-8
  writes in two bytes; and U+1680, U+2000 to U+200A, U+2028, U+2029, U+202F, U+205F
  and U+3000, which it writes in three. \<open>TrimRight_space_rev\<close> takes the string
  reversed, so it meets the bytes of a character last byte first.
\<close>

definition asciiSpace :: "char \<Rightarrow> bool" where
  "asciiSpace c \<longleftrightarrow> c \<in> set [CHR 0x09, CHR 0x0A, CHR 0x0B, CHR 0x0C, CHR 0x0D, CHR 0x20]"

definition space2 :: "char \<Rightarrow> char \<Rightarrow> bool" where
  "space2 c d \<longleftrightarrow> c = CHR 0xC2 \<and> (d = CHR 0x85 \<or> d = CHR 0xA0)"

definition space3 :: "char \<Rightarrow> char \<Rightarrow> char \<Rightarrow> bool" where
  "space3 c d e \<longleftrightarrow>
     (c = CHR 0xE1 \<and> d = CHR 0x9A \<and> e = CHR 0x80)
     \<or> (c = CHR 0xE2 \<and> d = CHR 0x80
          \<and> e \<in> set [CHR 0x80, CHR 0x81, CHR 0x82, CHR 0x83, CHR 0x84, CHR 0x85, CHR 0x86,
                       CHR 0x87, CHR 0x88, CHR 0x89, CHR 0x8A, CHR 0xA8, CHR 0xA9, CHR 0xAF])
     \<or> (c = CHR 0xE2 \<and> d = CHR 0x81 \<and> e = CHR 0x9F)
     \<or> (c = CHR 0xE3 \<and> d = CHR 0x80 \<and> e = CHR 0x80)"

fun TrimLeft_space :: "string \<Rightarrow> string" where
  "TrimLeft_space [] = []"
| "TrimLeft_space [c] = (if asciiSpace c then [] else [c])"
| "TrimLeft_space [c, d] =
     (if asciiSpace c then TrimLeft_space [d]
      else if space2 c d then []
      else [c, d])"
| "TrimLeft_space (c # d # e # cs) =
     (if asciiSpace c then TrimLeft_space (d # e # cs)
      else if space2 c d then TrimLeft_space (e # cs)
      else if space3 c d e then TrimLeft_space cs
      else c # d # e # cs)"

fun TrimRight_space_rev :: "string \<Rightarrow> string" where
  "TrimRight_space_rev [] = []"
| "TrimRight_space_rev [c] = (if asciiSpace c then [] else [c])"
| "TrimRight_space_rev [c, d] =
     (if asciiSpace c then TrimRight_space_rev [d]
      else if space2 d c then []
      else [c, d])"
| "TrimRight_space_rev (c # d # e # cs) =
     (if asciiSpace c then TrimRight_space_rev (d # e # cs)
      else if space2 d c then TrimRight_space_rev (e # cs)
      else if space3 e d c then TrimRight_space_rev cs
      else c # d # e # cs)"

definition TrimSpace :: "string \<Rightarrow> string" where
  "TrimSpace s = rev (TrimRight_space_rev (rev (TrimLeft_space s)))"

fun Join :: "string list \<Rightarrow> string \<Rightarrow> string" where
  "Join [] sep = []"
| "Join [e] sep = e"
| "Join (e # e' # elems) sep = e @ sep @ Join (e' # elems) sep"

text \<open>\<open>filepath.Base\<close> and \<open>filepath.Ext\<close> on Unix (no volume names).\<close>

definition IsPathSeparator :: "char \<Rightarrow> bool" where
  "IsPathSeparator c \<longleftrightarrow> c = CHR ''/''"

definition Base :: "string \<Rightarrow> string" where
  "Base path =
     (if path = [] then ''.''
      else
        (let stripped = rev (dropWhile IsPathSeparator (rev path));
             elem = rev (takeWhile (\<lambda>c. \<not> IsPathSeparator c) (rev stripped))
         in if elem = [] then ''/'' else elem))"

text \<open>
  \<open>Ext\<close> walks from the last byte towards the front until it meets a separator; the
  first dot it meets starts the extension. \<open>Ext_scan\<close> takes the path reversed and
  collects the bytes already passed.
\<close>

fun Ext_scan :: "string \<Rightarrow> string \<Rightarrow> string" where
  "Ext_scan [] sfx = []"
| "Ext_scan (c # cs) sfx =
     (if IsPathSeparator c then []
      else if c = CHR ''.'' then c # sfx
      else Ext_scan cs (c # sfx))"

definition Ext :: "string \<Rightarrow> string" where
  "Ext path = Ext_scan (rev path) []"

section \<open>internal/config: StreamConfig.Matches and Config.AutoDiscover\<close>

definition Matches :: "OS \<Rightarrow> StreamConfig \<Rightarrow> string \<Rightarrow> bool" where
  "Matches os c path =
     list_ex (\<lambda>pattern. filepath_Match os pattern (Base path) = Some True) (Patterns c)"

definition expandPath :: "OS \<Rightarrow> string \<Rightarrow> string" where
  "expandPath os path =
     (if length path = 0 then path
      else if hd path = CHR ''~'' then
        (case UserHomeDir os of
           None \<Rightarrow> path
         | Some home \<Rightarrow> filepath_Join os [home, tl path])
      else path)"

definition streamColors :: "string list" where
  "streamColors = [''cyan'', ''green'', ''yellow'', ''magenta'', ''blue'', ''red'']"

text \<open>The directory AutoDiscover scans (the first statement of the function).\<close>

definition discoverDir :: "OS \<Rightarrow> Config \<Rightarrow> string" where
  "discoverDir os cfg =
     (if LogDir cfg = [] then
        (let home = (case UserHomeDir os of None \<Rightarrow> [] | Some h \<Rightarrow> h)
         in filepath_Join os [home, ''.local'', ''share'', ''logdump'', ''logs''])
      else expandPath os (LogDir cfg))"

text \<open>\<open>base[:len(base)-len(filepath.Ext(base))]\<close> for \<open>base = filepath.Base(file)\<close>.\<close>

definition discoveredName :: "string \<Rightarrow> string" where
  "discoveredName file = (let base = Base file in take (length base - length (Ext base)) base)"

text \<open>
  The loop over the discovered files. \<open>exclude\<close> and \<open>existingStreams\<close> are Go maps to
  \<open>bool\<close>, where a missing key reads as \<open>false\<close>; \<open>existingStreams\<close> is built once,
  before the loop, from the streams the configuration already has.
\<close>

fun AutoDiscover_range ::
  "(string \<rightharpoonup> bool) \<Rightarrow> (string \<rightharpoonup> bool) \<Rightarrow> string \<Rightarrow> StreamConfig list \<Rightarrow> nat \<Rightarrow> string list
     \<Rightarrow> StreamConfig list" where
  "AutoDiscover_range exclude existingStreams logDir strs colorIdx [] = strs"
| "AutoDiscover_range exclude existingStreams logDir strs colorIdx (file # files) =
     (let base = Base file;
          name = discoveredName file
      in if exclude name = Some True \<or> existingStreams name = Some True then
           AutoDiscover_range exclude existingStreams logDir strs colorIdx files
         else
           AutoDiscover_range exclude existingStreams logDir
             (strs @ [\<lparr>StreamConfig.Name = name, Path = logDir, Patterns = [base], Tags = [],
                       Color = streamColors ! (colorIdx mod length streamColors)\<rparr>])
             (colorIdx + 1) files)"

definition AutoDiscover :: "OS \<Rightarrow> Config \<Rightarrow> (string \<rightharpoonup> bool) \<Rightarrow> error option \<times> Config" where
  "AutoDiscover os cfg exclude =
     (let logDir = discoverDir os cfg in
      if IsNotExist os logDir then (None, cfg)
      else
        (case filepath_Glob os (filepath_Join os [logDir, ''*.log'']) of
           None \<Rightarrow> (Some GlobError, cfg)
         | Some logFiles \<Rightarrow>
             (let txtFiles =
                    (case filepath_Glob os (filepath_Join os [logDir, ''*.txt'']) of
                       None \<Rightarrow> []
                     | Some fs \<Rightarrow> fs);
                  files = logFiles @ txtFiles;
                  existingStreams =
                    map_of (map (\<lambda>s. (StreamConfig.Name s, True)) (Config.Streams cfg))
              in (None,
                  cfg\<lparr>Config.Streams :=
                        AutoDiscover_range exclude existingStreams logDir (Config.Streams cfg)
                          (length (Config.Streams cfg)) files\<rparr>))))"

section \<open>internal/logtail\<close>

definition NewManagerWithOptions :: "bool \<Rightarrow> Manager" where
  "NewManagerWithOptions t =
     \<lparr>streams = Map.empty, buffer = [], bufferMu = [], tailOnly = t\<rparr>"

definition NewManager :: Manager where
  "NewManager = NewManagerWithOptions False"

subsection \<open>Source Registry: Manager.Tail and Manager.addFile\<close>

text \<open>
  \<open>addFile\<close> registers a fresh Stream, with its line counter at zero, for a path it
  has not seen, and starts the Follower (\<open>Stream_read\<close> below) on it.
\<close>

definition addFile :: "OS \<Rightarrow> Manager \<Rightarrow> StreamConfig \<Rightarrow> string \<Rightarrow> error + Manager" where
  "addFile os m cfg path =
     (if streams m path \<noteq> None then Inr m
      else
        (case Open os path of
           None \<Rightarrow> Inl (OpenError path)
         | Some content \<Rightarrow>
             Inr (m\<lparr>streams := (streams m)(path \<mapsto> \<lparr>Config = cfg, LineNumber = 0\<rparr>)\<rparr>)))"

fun Tail_range ::
  "OS \<Rightarrow> Manager \<Rightarrow> StreamConfig \<Rightarrow> string list \<Rightarrow> error option \<times> Manager" where
  "Tail_range os m cfg [] = (None, m)"
| "Tail_range os m cfg (match # rest) =
     (if \<not> Matches os cfg match then Tail_range os m cfg rest
      else
        (case addFile os m cfg match of
           Inl err \<Rightarrow> (Some err, m)
         | Inr m' \<Rightarrow> Tail_range os m' cfg rest))"

text \<open>
  The periodic re-scan that \<open>Tail\<close> starts when the directory is empty
  (\<open>watchDirectory\<close>) runs the same loop again later; it is not part of the model.
\<close>

definition Tail :: "OS \<Rightarrow> Manager \<Rightarrow> StreamConfig \<Rightarrow> error option \<times> Manager" where
  "Tail os m cfg =
     (case filepath_Glob os (filepath_Join os [Path cfg, ''*'']) of
        None \<Rightarrow> (Some GlobError, m)
      | Some matches \<Rightarrow> Tail_range os m cfg matches)"

subsection \<open>Follower: Stream.read\<close>

text \<open>
  A \<open>bufio.Reader\<close> is the bytes it has not handed out yet: those of the file from
  the position it was created at up to the end of the file. \<open>ReadString\<close> returns the
  bytes up to and including the first delimiter, or, when there is none, all that is
  left together with \<open>io.EOF\<close> (the flag \<open>True\<close>).
\<close>

definition ReadString :: "string \<Rightarrow> char \<Rightarrow> string \<times> bool \<times> string" where
  "ReadString rd delim =
     (case dropWhile (\<lambda>c. c \<noteq> delim) rd of
        [] \<Rightarrow> (rd, True, [])
      | d # rest \<Rightarrow> (takeWhile (\<lambda>c. c \<noteq> delim) rd @ [d], False, rest))"

lemma ReadString_shrinks:
  "ReadString rd delim = (line, False, rd') \<Longrightarrow> length rd' < length rd"
proof -
  assume "ReadString rd delim = (line, False, rd')"
  then obtain d where d: "dropWhile (\<lambda>c. c \<noteq> delim) rd = d # rd'"
    by (auto simp: ReadString_def split: list.splits)
  have "length (dropWhile (\<lambda>c. c \<noteq> delim) rd) \<le> length rd"
    by (rule length_dropWhile_le)
  with d show ?thesis by simp
qed

text \<open>
  The inner loop of \<open>read\<close>: one entry for every line that ends in a newline, until
  \<open>ReadString\<close> reports \<open>io.EOF\<close>; what it returned with \<open>io.EOF\<close> is dropped. Every
  send on the channel is taken to succeed, so the result is the entries in the order
  they were built. \<open>now\<close> is the clock during this iteration.
\<close>

function read_lines :: "Stream \<Rightarrow> nat \<Rightarrow> string \<Rightarrow> LogEntry list \<times> Stream" where
  "read_lines s now rd =
     (case ReadString rd newline of
        (line, err, rd') \<Rightarrow>
          if err then ([], s)
          else
            (let s1 = s\<lparr>Stream.LineNumber := Stream.LineNumber s + 1\<rparr>;
                 entry = \<lparr>Timestamp = now, Source = StreamConfig.Name (Config s1),
                          Content = TrimSuffix line [newline],
                          Tags = StreamConfig.Tags (Config s1), Filtered = False,
                          LineNumber = Stream.LineNumber s1\<rparr>
             in case read_lines s1 now rd' of (es, s2) \<Rightarrow> (entry # es, s2)))"
  by pat_completeness auto
termination read_lines
  by (relation "measure (\<lambda>(s, now, rd). length rd)") (auto dest: ReadString_shrinks [OF sym])

declare read_lines.simps [simp del]

text \<open>
  One iteration of the polling loop on the file content \<open>fl\<close>, with the cursor at
  \<open>offset\<close>. The new cursor is \<open>s.File.Seek(0, io.SeekCurrent)\<close>, the position of the
  file itself: the reader has pulled the file up to its end before \<open>ReadString\<close> can
  report \<open>io.EOF\<close>, so that position is the size of the file.
\<close>

definition poll :: "Stream \<Rightarrow> nat \<Rightarrow> string \<Rightarrow> nat \<Rightarrow> LogEntry list \<times> Stream \<times> nat" where
  "poll s now fl offset =
     (let fileSize = length fl in
      if offset < fileSize then
        (case read_lines s now (drop offset fl) of
           (es, s') \<Rightarrow> (es, s', length fl))
      else ([], s, offset))"

text \<open>
  The environment of a Follower is what happens between two iterations: \<open>Grow bytes now\<close>
  says that a writer has appended \<open>bytes\<close> (possibly none) since the last iteration and
  that the clock shows \<open>now\<close>; \<open>IOError\<close> says that the next seek or read fails, which
  ends the loop. The end of the list is the cancellation of the context. A failure of
  the seek that precedes the loop in tail-only mode is an \<open>IOError\<close> at the first
  iteration.
\<close>

datatype tick = Grow string nat | IOError

fun grown :: "tick \<Rightarrow> string" where
  "grown (Grow bytes now) = bytes"
| "grown IOError = []"

fun read_loop :: "Stream \<Rightarrow> string \<Rightarrow> nat \<Rightarrow> tick list \<Rightarrow> LogEntry list \<times> Stream" where
  "read_loop s fl offset [] = ([], s)"
| "read_loop s fl offset (IOError # ticks) = ([], s)"
| "read_loop s fl offset (Grow bytes now # ticks) =
     (let fl' = fl @ bytes in
      case poll s now fl' offset of
        (es, s', offset') \<Rightarrow>
          (case read_loop s' fl' offset' ticks of
             (es', s'') \<Rightarrow> (es @ es', s'')))"

text \<open>
  \<open>Stream_read s tail fl ticks\<close> is \<open>s.read(ctx, entries, tail)\<close> on a file whose
  content is \<open>fl\<close> when the Follower starts: all the entries it sends, and the Stream
  when it returns.
\<close>

definition Stream_read :: "Stream \<Rightarrow> bool \<Rightarrow> string \<Rightarrow> tick list \<Rightarrow> LogEntry list \<times> Stream" where
  "Stream_read s tail fl ticks =
     read_loop s fl (if tail then length fl else 0) ticks"

subsection \<open>Buffer Keeper: Manager.AddEntry, Manager.Search, Manager.GetEntries\<close>

definition AddEntry :: "Manager \<Rightarrow> LogEntry \<Rightarrow> Manager" where
  "AddEntry m entry =
     (let b = buffer m @ [entry];
          b' = (if length b > 1000 then drop (length b - 1000) b else b)
      in m\<lparr>buffer := b', bufferMu := bufferMu m @ [Lock, Unlock]\<rparr>)"

text \<open>
  \<open>Search\<close> compiles the pattern first. Only when that succeeds does it start the
  scan, which takes the read lock, walks the buffer and sends the matches; the model
  returns the matches as a list (the consumer drains the channel, the context is not
  cancelled).
\<close>

definition Search ::
  "compiler \<Rightarrow> Manager \<Rightarrow> string \<Rightarrow> string \<Rightarrow> (error + LogEntry list) \<times> Manager" where
  "Search Compile m pattern source =
     (case Compile pattern of
        Inl err \<Rightarrow> (Inl (InvalidPattern err), m)
      | Inr re \<Rightarrow>
          (Inr (filter (\<lambda>entry. (source = [] \<or> Source entry = source) \<and> re (Content entry))
                  (buffer m)),
           m\<lparr>bufferMu := bufferMu m @ [RLock, RUnlock]\<rparr>))"

definition GetEntries :: "Manager \<Rightarrow> string \<Rightarrow> int \<Rightarrow> LogEntry list \<times> Manager" where
  "GetEntries m source limit =
     (let entries = filter (\<lambda>entry. source = [] \<or> Source entry = source) (buffer m);
          entries' =
            (if limit > 0 \<and> int (length entries) > limit
             then drop (length entries - nat limit) entries
             else entries)
      in (entries', m\<lparr>bufferMu := bufferMu m @ [RLock, RUnlock]\<rparr>))"

section \<open>internal/mcp: the query tools\<close>

text \<open>
  The arguments of a tool call arrive as a JSON object; a missing string reads as the
  empty string, a missing number or flag as \<open>None\<close>. A tool's result is the list of
  entries it renders, one line each. \<open>regexp.MustCompile\<close> panics where
  \<open>regexp.Compile\<close> returns an error; nothing in the package recovers from a panic.
\<close>

definition error_text :: "error \<Rightarrow> string" where
  "error_text e =
     (case e of
        OpenError path \<Rightarrow> ''failed to open '' @ path
      | GlobError \<Rightarrow> ''syntax error in pattern''
      | InvalidPattern err \<Rightarrow> ''invalid pattern: '' @ err)"

definition MustCompile :: "compiler \<Rightarrow> string \<Rightarrow> panic + regexp" where
  "MustCompile Compile str =
     (case Compile str of
        Inl err \<Rightarrow> Inl (Panic err)
      | Inr re \<Rightarrow> Inr re)"

definition toolRead ::
  "compiler \<Rightarrow> Server \<Rightarrow> string \<Rightarrow> string \<Rightarrow> int option \<Rightarrow> panic + (LogEntry list \<times> Server)" where
  "toolRead Compile s source grp l =
     (let limit = (case l of None \<Rightarrow> 100 | Some l' \<Rightarrow> l') in
      case GetEntries (manager s) source limit of
        (entries, m') \<Rightarrow>
          (let s' = s\<lparr>manager := m'\<rparr> in
           if grp \<noteq> [] then
             (case logGroups s grp of
                None \<Rightarrow> Inr (entries, s')
              | Some g \<Rightarrow>
                  if Pattern g \<noteq> [] then
                    (case MustCompile Compile (''(?i)'' @ Pattern g) of
                       Inl p \<Rightarrow> Inl p
                     | Inr re \<Rightarrow> Inr (filter (\<lambda>e. re (Content e)) entries, s'))
                  else Inr (entries, s'))
           else Inr (entries, s')))"

text \<open>The loop of \<open>toolGrep\<close> over the results of \<open>Search\<close>.\<close>

fun toolGrep_range :: "compiler \<Rightarrow> string \<Rightarrow> int \<Rightarrow> int \<Rightarrow> LogEntry list \<Rightarrow> LogEntry list" where
  "toolGrep_range Compile fullPattern limit count [] = []"
| "toolGrep_range Compile fullPattern limit count (entry # results) =
     (if count \<ge> limit then []
      else
        (case Compile fullPattern of
           Inl err \<Rightarrow> toolGrep_range Compile fullPattern limit count results
         | Inr re \<Rightarrow>
             if re (Content entry)
             then entry # toolGrep_range Compile fullPattern limit (count + 1) results
             else toolGrep_range Compile fullPattern limit count results))"

definition toolGrep ::
  "compiler \<Rightarrow> Server \<Rightarrow> string \<Rightarrow> string \<Rightarrow> string \<Rightarrow> int option \<Rightarrow> bool option
     \<Rightarrow> (MCPError + LogEntry list) \<times> Server" where
  "toolGrep Compile s pattern source grp l ci =
     (let limit = (case l of None \<Rightarrow> 100 | Some l' \<Rightarrow> l');
          caseInsensitive = (case ci of None \<Rightarrow> False | Some b \<Rightarrow> b);
          flags = (if caseInsensitive then ''(?i)'' else []);
          fullPattern = flags @ pattern;
          searchSource =
            (if grp \<noteq> [] then
               Join (case logGroups s grp of None \<Rightarrow> [] | Some g \<Rightarrow> LogGroup.Streams g) '',''
             else source)
      in case Search Compile (manager s) fullPattern searchSource of
           (Inl err, m') \<Rightarrow> (Inl (MCPError (- 32603) (error_text err)), s\<lparr>manager := m'\<rparr>)
         | (Inr results, m') \<Rightarrow>
             (Inr (toolGrep_range Compile fullPattern limit 0 results), s\<lparr>manager := m'\<rparr>))"

definition toolCreateGroup ::
  "Server \<Rightarrow> string \<Rightarrow> string \<Rightarrow> string \<Rightarrow> string \<Rightarrow> nat \<Rightarrow> Server" where
  "toolCreateGroup s name pattern color streamsStr now =
     (let strs = (if streamsStr \<noteq> [] then map TrimSpace (Split streamsStr CHR '','') else []);
          color' = (if color = [] then ''cyan'' else color)
      in s\<lparr>logGroups := (logGroups s)(name \<mapsto>
            \<lparr>LogGroup.Name = name, Pattern = pattern, Color = color', Streams = strs,
             CreatedAt = now\<rparr>)\<rparr>)"

text \<open>
  \<open>handleResourcesRead\<close>; the argument is the \<open>uri\<close> parameter of the request, \<open>None\<close>
  when the parameters do not parse.
\<close>

definition handleResourcesRead ::
  "compiler \<Rightarrow> Server \<Rightarrow> string option \<Rightarrow> panic + ((MCPError + LogEntry list) \<times> Server)" where
  "handleResourcesRead Compile s params =
     (case params of
        None \<Rightarrow> Inr (Inl (MCPError (- 32602) ''Invalid params''), s)
      | Some uri \<Rightarrow>
          if HasPrefix uri ''logdump://stream/'' then
            (let streamName = TrimPrefix uri ''logdump://stream/'' in
             case GetEntries (manager s) streamName 100 of
               (entries, m') \<Rightarrow> Inr (Inr entries, s\<lparr>manager := m'\<rparr>))
          else if HasPrefix uri ''logdump://group/'' then
            (let groupName = TrimPrefix uri ''logdump://group/'' in
             case logGroups s groupName of
               Some grp \<Rightarrow>
                 (case MustCompile Compile (''(?i)'' @ Pattern grp) of
                    Inl p \<Rightarrow> Inl p
                  | Inr re \<Rightarrow>
                      (case GetEntries (manager s) [] 100 of
                         (entries, m') \<Rightarrow>
                           Inr (Inr (filter
                                  (\<lambda>e. list_ex (\<lambda>stream. Source e = stream \<and> re (Content e))
                                         (LogGroup.Streams grp))
                                  entries),
                                s\<lparr>manager := m'\<rparr>)))
             | None \<Rightarrow> Inr (Inl (MCPError (- 32603) (''Group not found: '' @ groupName)), s))
          else Inr (Inl (MCPError (- 32603) (''Unknown resource URI: '' @ uri)), s))"

section \<open>Concrete environments\<close>

text \<open>
  The closed statements below run the model in one environment: a directory \<open>/logs\<close>
  with four files, a glob matcher for patterns without metacharacters (such a pattern
  matches its own text only), and a compiler for the fragment of the regular
  expressions made of letters, digits and blanks, optionally after the flag \<open>(?i)\<close>.
  On that fragment \<open>MatchString\<close> is substring search, case-folded under the flag.
  \<open>literal_Compile\<close> is applied to patterns of the fragment and to the patterns \<open>(\<close>
  and \<open>(?i)(\<close> only, which \<open>regexp.Compile\<close> rejects for the missing closing
  parenthesis.
\<close>

definition asciiUpper :: string where
  "asciiUpper = ''ABCDEFGHIJKLMNOPQRSTUVWXYZ''"

definition asciiLower :: string where
  "asciiLower = ''abcdefghijklmnopqrstuvwxyz''"

definition ToLower :: "string \<Rightarrow> string" where
  "ToLower s = map (\<lambda>c. case map_of (zip asciiUpper asciiLower) c of None \<Rightarrow> c | Some l \<Rightarrow> l) s"

definition Contains :: "string \<Rightarrow> string \<Rightarrow> bool" where
  "Contains s substr = list_ex (\<lambda>t. HasPrefix t substr) (suffixes s)"

definition literal_Compile :: compiler where
  "literal_Compile pattern =
     (let foldCase = HasPrefix pattern ''(?i)'';
          body = TrimPrefix pattern ''(?i)''
      in if list_all (\<lambda>c. c \<in> set (asciiUpper @ asciiLower @ ''0123456789 '')) body then
           Inr (\<lambda>s. if foldCase then Contains (ToLower s) (ToLower body) else Contains s body)
         else Inl (''error parsing regexp: missing closing ): `'' @ pattern @ ''`''))"

definition logs_os :: OS where
  "logs_os =
     \<lparr>UserHomeDir = Some ''/home/u'',
      filepath_Join = (\<lambda>elems. Join elems ''/''),
      IsNotExist = (\<lambda>path. path \<noteq> ''/logs''),
      filepath_Glob = (\<lambda>pattern.
        if pattern = ''/logs/*'' then
          Some [''/logs/a.log'', ''/logs/b.log'', ''/logs/notes.txt'', ''/logs/skip.log'']
        else if pattern = ''/logs/*.log'' then
          Some [''/logs/a.log'', ''/logs/b.log'', ''/logs/skip.log'']
        else if pattern = ''/logs/*.txt'' then Some [''/logs/notes.txt'']
        else Some []),
      filepath_Match = (\<lambda>pattern name. Some (pattern = name)),
      Open = [''/logs/a.log'' \<mapsto> ''x\<newline>'', ''/logs/b.log'' \<mapsto> ''y\<newline>'',
              ''/logs/notes.txt'' \<mapsto> [], ''/logs/skip.log'' \<mapsto> []]\<rparr>"

text \<open>A source whose patterns match two files of the directory.\<close>

definition app_cfg :: StreamConfig where
  "app_cfg =
     \<lparr>StreamConfig.Name = ''app'', Path = ''/logs'', Patterns = [''a.log'', ''b.log''],
      Tags = [], Color = ''cyan''\<rparr>"

text \<open>A configuration that already has the stream \<open>b\<close>, and an exclusion of \<open>skip\<close>.\<close>

definition logs_cfg :: Config where
  "logs_cfg =
     \<lparr>LogDir = ''/logs'',
      Streams = [\<lparr>StreamConfig.Name = ''b'', Path = ''/logs'', Patterns = [''b.log''],
                  Tags = [], Color = ''red''\<rparr>]\<rparr>"

definition logs_exclude :: "string \<rightharpoonup> bool" where
  "logs_exclude = [''skip'' \<mapsto> True]"

text \<open>
  A buffer with one entry of the source \<open>db\<close> and two of the source \<open>app\<close>, in this
  order of arrival, and a server with the group \<open>errors\<close> over the source \<open>app\<close> and
  the group \<open>all\<close> over both sources.
\<close>

definition db_entry :: LogEntry where
  "db_entry =
     \<lparr>Timestamp = 1, Source = ''db'', Content = ''ERR disk'', Tags = [], Filtered = False,
      LineNumber = 1\<rparr>"

definition app_entry_1 :: LogEntry where
  "app_entry_1 =
     \<lparr>Timestamp = 2, Source = ''app'', Content = ''request ok'', Tags = [], Filtered = False,
      LineNumber = 1\<rparr>"

definition app_entry_2 :: LogEntry where
  "app_entry_2 =
     \<lparr>Timestamp = 3, Source = ''app'', Content = ''ERR timeout'', Tags = [], Filtered = False,
      LineNumber = 2\<rparr>"

definition three_entries :: Manager where
  "three_entries = foldl AddEntry NewManager [db_entry, app_entry_1, app_entry_2]"

definition groups_server :: Server where
  "groups_server =
     toolCreateGroup
       (toolCreateGroup \<lparr>manager = three_entries, logGroups = Map.empty\<rparr>
          ''errors'' ''ERR'' ''red'' ''app'' 10)
       ''all'' ''ERR'' [] ''app, db'' 11"

section \<open>Properties of the Follower\<close>

lemma read_lines_eof:
  "ReadString rd newline = (line, True, rd') \<Longrightarrow> read_lines s now rd = ([], s)"
  by (subst read_lines.simps) simp

lemma read_lines_line:
  "ReadString rd newline = (line, False, rd') \<Longrightarrow>
   read_lines s now rd =
     (\<lparr>Timestamp = now, Source = StreamConfig.Name (Config s), Content = TrimSuffix line [newline],
        Tags = StreamConfig.Tags (Config s), Filtered = False,
        LineNumber = Suc (Stream.LineNumber s)\<rparr>
        # fst (read_lines (s\<lparr>Stream.LineNumber := Suc (Stream.LineNumber s)\<rparr>) now rd'),
      snd (read_lines (s\<lparr>Stream.LineNumber := Suc (Stream.LineNumber s)\<rparr>) now rd'))"
  by (subst read_lines.simps) (simp add: Let_def split: prod.splits)

lemma ReadString_count:
  "ReadString rd delim = (line, False, rd') \<Longrightarrow> count_list rd delim = Suc (count_list rd' delim)"
proof (induction rd arbitrary: line)
  case Nil
  then show ?case by (simp add: ReadString_def)
next
  case (Cons c rd)
  then show ?case
    by (cases "c = delim") (auto simp: ReadString_def split: list.splits)
qed

lemma ReadString_eof_count:
  "ReadString rd delim = (line, True, rd') \<Longrightarrow> count_list rd delim = 0"
  by (induction rd arbitrary: line) (auto simp: ReadString_def split: list.splits if_splits)

lemma read_lines_length:
  "length (fst (read_lines s now rd)) = count_list rd newline"
proof (induction "length rd" arbitrary: s rd rule: less_induct)
  case less
  obtain line err rd' where r: "ReadString rd newline = (line, err, rd')"
    by (cases "ReadString rd newline") auto
  show ?case
  proof (cases err)
    case True
    with r show ?thesis by (simp add: read_lines_eof ReadString_eof_count)
  next
    case False
    with r have r': "ReadString rd newline = (line, False, rd')" by simp
    from ReadString_shrinks [OF r'] have "length rd' < length rd" .
    from less [OF this] r' show ?thesis
      by (simp add: read_lines_line ReadString_count)
  qed
qed

lemma read_lines_state:
  "snd (read_lines s now rd) = s\<lparr>Stream.LineNumber := Stream.LineNumber s + count_list rd newline\<rparr>"
proof (induction "length rd" arbitrary: s rd rule: less_induct)
  case less
  obtain line err rd' where r: "ReadString rd newline = (line, err, rd')"
    by (cases "ReadString rd newline") auto
  show ?case
  proof (cases err)
    case True
    with r show ?thesis by (simp add: read_lines_eof ReadString_eof_count)
  next
    case False
    with r have r': "ReadString rd newline = (line, False, rd')" by simp
    from ReadString_shrinks [OF r'] have "length rd' < length rd" .
    from less [OF this] r' show ?thesis
      by (simp add: read_lines_line ReadString_count)
  qed
qed

lemma read_lines_numbers:
  "map LogEntry.LineNumber (fst (read_lines s now rd))
     = [Suc (Stream.LineNumber s) ..< Suc (Stream.LineNumber s) + count_list rd newline]"
proof (induction "length rd" arbitrary: s rd rule: less_induct)
  case less
  obtain line err rd' where r: "ReadString rd newline = (line, err, rd')"
    by (cases "ReadString rd newline") auto
  show ?case
  proof (cases err)
    case True
    with r show ?thesis by (simp add: read_lines_eof ReadString_eof_count)
  next
    case False
    with r have r': "ReadString rd newline = (line, False, rd')" by simp
    from ReadString_shrinks [OF r'] have "length rd' < length rd" .
    from less [OF this] r' show ?thesis
      by (simp add: read_lines_line ReadString_count upt_conv_Cons)
  qed
qed

lemma read_lines_source:
  "e \<in> set (fst (read_lines s now rd)) \<Longrightarrow> Source e = StreamConfig.Name (Config s)"
proof (induction "length rd" arbitrary: s rd rule: less_induct)
  case less
  obtain line err rd' where r: "ReadString rd newline = (line, err, rd')"
    by (cases "ReadString rd newline") auto
  show ?case
  proof (cases err)
    case True
    with r less.prems show ?thesis by (simp add: read_lines_eof)
  next
    case False
    with r have r': "ReadString rd newline = (line, False, rd')" by simp
    from ReadString_shrinks [OF r'] have "length rd' < length rd" .
    from less.hyps [OF this] r' less.prems show ?thesis
      by (auto simp add: read_lines_line)
  qed
qed

lemma poll_entries:
  "fst (poll s now fl offset) = fst (read_lines s now (drop offset fl))"
  by (simp add: poll_def read_lines_eof ReadString_def split: prod.splits)

lemma poll_count:
  "length (fst (poll s now fl offset)) = count_list (drop offset fl) newline"
  by (simp add: poll_entries read_lines_length)

lemma poll_state:
  "fst (snd (poll s now fl offset))
     = s\<lparr>Stream.LineNumber := Stream.LineNumber s + count_list (drop offset fl) newline\<rparr>"
proof (cases "offset < length fl")
  case True
  then have "fst (snd (poll s now fl offset)) = snd (read_lines s now (drop offset fl))"
    by (simp add: poll_def split: prod.splits)
  then show ?thesis by (simp only: read_lines_state)
next
  case False
  then show ?thesis by (simp add: poll_def)
qed

lemma poll_offset:
  "snd (snd (poll s now fl offset)) = max offset (length fl)"
  by (simp add: poll_def split: prod.splits)

lemma poll_numbers:
  "map LogEntry.LineNumber (fst (poll s now fl offset))
     = [Suc (Stream.LineNumber s) ..< Suc (Stream.LineNumber s) + length (fst (poll s now fl offset))]"
proof -
  have "map LogEntry.LineNumber (fst (poll s now fl offset))
     = [Suc (Stream.LineNumber s) ..< Suc (Stream.LineNumber s) + count_list (drop offset fl) newline]"
    by (simp only: poll_entries read_lines_numbers)
  then show ?thesis by (simp only: poll_count)
qed

lemma poll_source:
  "map Source (fst (poll s now fl offset))
     = replicate (length (fst (poll s now fl offset))) (StreamConfig.Name (Config s))"
proof -
  have "\<forall>y\<in>set (map Source (fst (poll s now fl offset))). y = StreamConfig.Name (Config s)"
    by (auto simp: poll_entries dest: read_lines_source)
  from replicate_length_same [OF this] show ?thesis by simp
qed

lemma read_loop_state:
  "snd (read_loop s fl offset ticks)
     = s\<lparr>Stream.LineNumber := Stream.LineNumber s + length (fst (read_loop s fl offset ticks))\<rparr>"
proof (induction ticks arbitrary: s fl offset)
  case Nil
  then show ?case by simp
next
  case (Cons t ticks)
  show ?case
  proof (cases t)
    case IOError
    then show ?thesis by simp
  next
    case (Grow bytes now)
    obtain es s' offset' where p: "poll s now (fl @ bytes) offset = (es, s', offset')"
      by (cases "poll s now (fl @ bytes) offset") auto
    have s': "s' = s\<lparr>Stream.LineNumber := Stream.LineNumber s + length es\<rparr>"
      using poll_state [of s now "fl @ bytes" offset] poll_count [of s now "fl @ bytes" offset] p
      by simp
    obtain es' s'' where r: "read_loop s' (fl @ bytes) offset' ticks = (es', s'')"
      by (cases "read_loop s' (fl @ bytes) offset' ticks") auto
    have "s'' = s'\<lparr>Stream.LineNumber := Stream.LineNumber s' + length es'\<rparr>"
      using Cons.IH [of s' "fl @ bytes" offset'] r by simp
    moreover have "read_loop s fl offset (t # ticks) = (es @ es', s'')"
      using Grow p r by (simp add: Let_def)
    ultimately show ?thesis
      using s' by (simp add: add.assoc)
  qed
qed

lemma read_loop_numbers:
  "map LogEntry.LineNumber (fst (read_loop s fl offset ticks))
     = [Suc (Stream.LineNumber s) ..<
         Suc (Stream.LineNumber s) + length (fst (read_loop s fl offset ticks))]"
proof (induction ticks arbitrary: s fl offset)
  case Nil
  then show ?case by simp
next
  case (Cons t ticks)
  show ?case
  proof (cases t)
    case IOError
    then show ?thesis by simp
  next
    case (Grow bytes now)
    obtain es s' offset' where p: "poll s now (fl @ bytes) offset = (es, s', offset')"
      by (cases "poll s now (fl @ bytes) offset") auto
    obtain es' s'' where r: "read_loop s' (fl @ bytes) offset' ticks = (es', s'')"
      by (cases "read_loop s' (fl @ bytes) offset' ticks") auto
    have s': "Stream.LineNumber s' = Stream.LineNumber s + length es"
      using poll_state [of s now "fl @ bytes" offset] poll_count [of s now "fl @ bytes" offset] p
      by simp
    have 1: "map LogEntry.LineNumber es
               = [Suc (Stream.LineNumber s) ..< Suc (Stream.LineNumber s) + length es]"
      using poll_numbers [of s now "fl @ bytes" offset] p by simp
    have 2: "map LogEntry.LineNumber es'
               = [Suc (Stream.LineNumber s) + length es ..<
                   Suc (Stream.LineNumber s) + length es + length es']"
      using Cons.IH [of s' "fl @ bytes" offset'] r s' by simp
    have "read_loop s fl offset (t # ticks) = (es @ es', s'')"
      using Grow p r by (simp add: Let_def)
    then show ?thesis
      using 1 2 upt_add_eq_append [of "Suc (Stream.LineNumber s)" "Suc (Stream.LineNumber s) + length es" "length es'"]
      by (simp add: add.assoc)
  qed
qed

lemma read_loop_source:
  "map Source (fst (read_loop s fl offset ticks))
     = replicate (length (fst (read_loop s fl offset ticks))) (StreamConfig.Name (Config s))"
proof (induction ticks arbitrary: s fl offset)
  case Nil
  then show ?case by simp
next
  case (Cons t ticks)
  show ?case
  proof (cases t)
    case IOError
    then show ?thesis by simp
  next
    case (Grow bytes now)
    obtain es s' offset' where p: "poll s now (fl @ bytes) offset = (es, s', offset')"
      by (cases "poll s now (fl @ bytes) offset") auto
    obtain es' s'' where r: "read_loop s' (fl @ bytes) offset' ticks = (es', s'')"
      by (cases "read_loop s' (fl @ bytes) offset' ticks") auto
    have s': "Config s' = Config s"
      using poll_state [of s now "fl @ bytes" offset] p by simp
    have 1: "map Source es = replicate (length es) (StreamConfig.Name (Config s))"
      using poll_source [of s now "fl @ bytes" offset] p by simp
    have 2: "map Source es' = replicate (length es') (StreamConfig.Name (Config s))"
      using Cons.IH [of s' "fl @ bytes" offset'] r s' by simp
    have "read_loop s fl offset (t # ticks) = (es @ es', s'')"
      using Grow p r by (simp add: Let_def)
    then show ?thesis
      using 1 2 by (simp add: replicate_add)
  qed
qed

lemma read_loop_tail_count:
  "IOError \<notin> set ticks \<Longrightarrow>
   length (fst (read_loop s fl (length fl) ticks))
     = count_list (concat (map grown ticks)) newline"
proof (induction ticks arbitrary: s fl)
  case Nil
  then show ?case by simp
next
  case (Cons t ticks)
  show ?case
  proof (cases t)
    case IOError
    with Cons.prems show ?thesis by simp
  next
    case (Grow bytes now)
    obtain es s' offset' where p: "poll s now (fl @ bytes) (length fl) = (es, s', offset')"
      by (cases "poll s now (fl @ bytes) (length fl)") auto
    obtain es' s'' where r: "read_loop s' (fl @ bytes) offset' ticks = (es', s'')"
      by (cases "read_loop s' (fl @ bytes) offset' ticks") auto
    have off: "offset' = length (fl @ bytes)"
      using poll_offset [of s now "fl @ bytes" "length fl"] p by simp
    have 1: "length es = count_list bytes newline"
      using poll_count [of s now "fl @ bytes" "length fl"] p by simp
    have 2: "length es' = count_list (concat (map grown ticks)) newline"
      using Cons.IH [of s' "fl @ bytes"] Cons.prems r off by simp
    have "read_loop s fl (length fl) (t # ticks) = (es @ es', s'')"
      using Grow p r by (simp add: Let_def)
    then show ?thesis
      using 1 2 Grow by simp
  qed
qed

lemma count_terminated_lines:
  "\<forall>l\<in>set ls. newline \<notin> set l \<Longrightarrow>
   count_list (concat (map (\<lambda>l. l @ [newline]) ls)) newline = length ls"
  by (induction ls) simp_all

section \<open>Properties of the Buffer Keeper\<close>

lemma buffer_AddEntry:
  "buffer (AddEntry m e) = drop (Suc (length (buffer m)) - 1000) (buffer m @ [e])"
  by (simp add: AddEntry_def Let_def)

lemma buffer_foldl_AddEntry:
  "buffer m = [] \<Longrightarrow> buffer (foldl AddEntry m es) = drop (length es - 1000) es"
proof (induction es rule: rev_induct)
  case Nil
  then show ?case by simp
next
  case (snoc e es)
  have "buffer (foldl AddEntry m (es @ [e]))
        = drop (Suc (length (drop (length es - 1000) es)) - 1000)
               (drop (length es - 1000) es @ [e])"
    using snoc by (simp add: buffer_AddEntry)
  also have "\<dots> = drop (length (es @ [e]) - 1000) (es @ [e])"
  proof (cases "length es < 1000")
    case True
    then show ?thesis by simp
  next
    case False
    then have "Suc (length es - 1000) = length es - 999" by arith
    with False show ?thesis by simp
  qed
  finally show ?case .
qed

lemma GetEntries_entries:
  "fst (GetEntries m S limit)
     = drop (if limit > 0 then length (filter (\<lambda>e. S = [] \<or> Source e = S) (buffer m)) - nat limit
             else 0)
         (filter (\<lambda>e. S = [] \<or> Source e = S) (buffer m))"
  by (simp add: GetEntries_def Let_def)

section \<open>The claims about the Buffer Keeper\<close>

text \<open>
  C1. Starting from a fresh manager, after any sequence \<open>es\<close> of AddEntry calls the
  buffer holds exactly the last \<open>min (length es) 1000\<close> appended entries, in arrival
  order, and so never more than 1000. Since \<open>es\<close> is arbitrary, this holds after
  every call of every sequence.
\<close>

theorem AddEntry_fifo_ring:
  "buffer (foldl AddEntry (NewManagerWithOptions t) es) = drop (length es - 1000) es
   \<and> length (buffer (foldl AddEntry (NewManagerWithOptions t) es)) = min (length es) 1000
   \<and> length (buffer (foldl AddEntry (NewManagerWithOptions t) es)) \<le> 1000"
proof -
  have b: "buffer (foldl AddEntry (NewManagerWithOptions t) es) = drop (length es - 1000) es"
    by (rule buffer_foldl_AddEntry) (simp add: NewManagerWithOptions_def)
  show ?thesis unfolding b by auto
qed

text \<open>
  C4, as stated: for every source name \<open>S\<close> and every limit \<open>N \<ge> 1\<close>, \<open>GetEntries\<close>
  returns no entry whose source differs from \<open>S\<close>. The empty string is a source name
  of this program: auto-discovery derives it from a file called \<open>.log\<close>. Under the
  guard \<open>source == ""\<close> a read of that source with the limit 1 returns the newest
  entry of the buffer, which belongs to the source \<open>app\<close>.
\<close>

theorem GetEntries_empty_source_counterexample:
  "discoveredName ''/logs/.log'' = []
   \<and> fst (GetEntries three_entries [] 1) = [app_entry_2]
   \<and> Source app_entry_2 = ''app''
   \<and> Source app_entry_2 \<noteq> []"
  by (simp add: discoveredName_def Base_def Ext_def IsPathSeparator_def GetEntries_def Let_def
      three_entries_def AddEntry_def NewManager_def NewManagerWithOptions_def db_entry_def
      app_entry_1_def app_entry_2_def)

text \<open>
  C4, as amended. For every buffer, every source name \<open>S\<close> other than the empty
  string and every limit \<open>N \<ge> 1\<close>, \<open>GetEntries\<close> with source \<open>S\<close> and limit \<open>N\<close>
  returns only entries of source \<open>S\<close>, at most \<open>N\<close> of them, and in the order in which
  the buffer holds them, which is the order of arrival.
\<close>

theorem GetEntries_source_limit_order:
  assumes "S \<noteq> []" and "N \<ge> 1"
  shows "(\<forall>e \<in> set (fst (GetEntries m S N)). Source e = S)
         \<and> int (length (fst (GetEntries m S N))) \<le> N
         \<and> subseq (fst (GetEntries m S N)) (buffer m)"
proof -
  let ?matching = "filter (\<lambda>e. S = [] \<or> Source e = S) (buffer m)"
  have r: "fst (GetEntries m S N) = drop (length ?matching - nat N) ?matching"
    using assms(2) by (simp add: GetEntries_entries)
  have "set (drop (length ?matching - nat N) ?matching) \<subseteq> set ?matching"
    by (rule set_drop_subset)
  then have 1: "\<forall>e \<in> set (fst (GetEntries m S N)). Source e = S"
    using assms(1) unfolding r by auto
  have 2: "int (length (fst (GetEntries m S N))) \<le> N"
    using assms(2) unfolding r by simp
  have "suffix (drop (length ?matching - nat N) ?matching) ?matching"
    by (rule suffix_drop)
  then have "subseq (drop (length ?matching - nat N) ?matching) ?matching"
    by (rule suffix_imp_subseq)
  moreover have "subseq ?matching (buffer m)"
    by (rule subseq_filter_left)
  ultimately have 3: "subseq (fst (GetEntries m S N)) (buffer m)"
    unfolding r by (rule subseq_order.trans)
  from 1 2 3 show ?thesis by simp
qed

theorem GetEntries_source_limit_order_witness:
  "fst (GetEntries three_entries ''app'' 1) = [app_entry_2]
   \<and> Source app_entry_2 = ''app''
   \<and> int (length (fst (GetEntries three_entries ''app'' 1))) \<le> 1
   \<and> subseq (fst (GetEntries three_entries ''app'' 1)) (buffer three_entries)"
  using GetEntries_source_limit_order [of "''app''" 1 three_entries]
  by (simp add: GetEntries_def Let_def three_entries_def AddEntry_def NewManager_def
      NewManagerWithOptions_def db_entry_def app_entry_1_def app_entry_2_def)

text \<open>
  C5, as stated: the first element of what \<open>GetEntries\<close> returns is the newest
  matching entry, and the result is bounded to the limit. The buffer \<open>three_entries\<close>
  received \<open>app_entry_1\<close> before \<open>app_entry_2\<close>; a read of the source \<open>app\<close> returns
  them in this order, the older one first, and a read with the limit 0 returns both.
\<close>

theorem GetEntries_newest_first_counterexample:
  "buffer three_entries = [db_entry, app_entry_1, app_entry_2]
   \<and> fst (GetEntries three_entries ''app'' 10) = [app_entry_1, app_entry_2]
   \<and> hd (fst (GetEntries three_entries ''app'' 10)) \<noteq> app_entry_2
   \<and> length (fst (GetEntries three_entries ''app'' 0)) = 2"
  by (simp add: GetEntries_def Let_def three_entries_def AddEntry_def NewManager_def
      NewManagerWithOptions_def db_entry_def app_entry_1_def app_entry_2_def)

text \<open>
  C5, as amended. For every buffer and every limit, \<open>GetEntries\<close> returns a suffix of
  the matching entries of the whole buffer, in arrival order: the newest
  \<open>min limit k\<close> of the \<open>k\<close> matching entries when the limit is positive, all of them
  otherwise. The newest matching entry is the last element of the result.
\<close>

theorem GetEntries_newest_last:
  "suffix (fst (GetEntries m S limit)) (filter (\<lambda>e. S = [] \<or> Source e = S) (buffer m))
   \<and> length (fst (GetEntries m S limit))
       = (if limit > 0 then min (nat limit) (length (filter (\<lambda>e. S = [] \<or> Source e = S) (buffer m)))
          else length (filter (\<lambda>e. S = [] \<or> Source e = S) (buffer m)))
   \<and> (filter (\<lambda>e. S = [] \<or> Source e = S) (buffer m) \<noteq> [] \<longrightarrow>
        last (fst (GetEntries m S limit)) = last (filter (\<lambda>e. S = [] \<or> Source e = S) (buffer m)))"
proof -
  let ?matching = "filter (\<lambda>e. S = [] \<or> Source e = S) (buffer m)"
  let ?n = "if limit > 0 then length ?matching - nat limit else 0"
  have r: "fst (GetEntries m S limit) = drop ?n ?matching"
    by (rule GetEntries_entries)
  have 1: "suffix (fst (GetEntries m S limit)) ?matching"
    unfolding r by (rule suffix_drop)
  have 2: "length (fst (GetEntries m S limit))
             = (if limit > 0 then min (nat limit) (length ?matching) else length ?matching)"
    unfolding r by auto
  have 3: "last (fst (GetEntries m S limit)) = last ?matching" if "?matching \<noteq> []"
  proof -
    from that have "?n < length ?matching" by auto
    then show ?thesis unfolding r by (rule last_drop)
  qed
  from 1 2 3 show ?thesis by blast
qed

theorem GetEntries_newest_last_witness:
  "filter (\<lambda>e. Source e = ''app'') (buffer three_entries) = [app_entry_1, app_entry_2]
   \<and> fst (GetEntries three_entries ''app'' 1) = [app_entry_2]
   \<and> last (fst (GetEntries three_entries ''app'' 10)) = app_entry_2"
  using GetEntries_newest_last [of three_entries "''app''" 10]
  by (simp add: GetEntries_def Let_def three_entries_def AddEntry_def NewManager_def
      NewManagerWithOptions_def db_entry_def app_entry_1_def app_entry_2_def)

text \<open>
  C8. When the pattern does not compile, \<open>Search\<close> returns the InvalidPattern error
  and the manager as it was: the buffer is untouched and the history of the buffer's
  mutex has not grown, so the lock was not taken and nothing was scanned. When the
  pattern compiles, \<open>Search\<close> returns results and no error, and the buffer is
  unchanged.
\<close>

theorem Search_invalid_pattern:
  "(Compile pattern = Inl err \<longrightarrow>
      Search Compile m pattern source = (Inl (InvalidPattern err), m))
   \<and> (Compile pattern = Inr re \<longrightarrow>
      (\<exists>results. fst (Search Compile m pattern source) = Inr results)
      \<and> buffer (snd (Search Compile m pattern source)) = buffer m)"
proof (intro conjI impI)
  assume "Compile pattern = Inl err"
  then show "Search Compile m pattern source = (Inl (InvalidPattern err), m)"
    by (simp add: Search_def)
next
  assume "Compile pattern = Inr re"
  then have "fst (Search Compile m pattern source)
               = Inr (filter (\<lambda>entry. (source = [] \<or> Source entry = source) \<and> re (Content entry))
                        (buffer m))"
    by (simp add: Search_def)
  then show "\<exists>results. fst (Search Compile m pattern source) = Inr results" ..
next
  assume "Compile pattern = Inr re"
  then show "buffer (snd (Search Compile m pattern source)) = buffer m"
    by (simp add: Search_def)
qed

theorem Search_invalid_pattern_witness:
  "literal_Compile ''('' = Inl ''error parsing regexp: missing closing ): `(`''
   \<and> Search literal_Compile three_entries ''('' ''app''
       = (Inl (InvalidPattern ''error parsing regexp: missing closing ): `(`''), three_entries)
   \<and> fst (Search literal_Compile three_entries ''ERR'' ''app'') = Inr [app_entry_2]
   \<and> buffer (snd (Search literal_Compile three_entries ''ERR'' ''app'')) = buffer three_entries"
proof -
  have bad: "literal_Compile ''('' = Inl ''error parsing regexp: missing closing ): `(`''"
    by (simp add: literal_Compile_def Let_def HasPrefix_def TrimPrefix_def asciiUpper_def asciiLower_def)
  obtain re where good: "literal_Compile ''ERR'' = Inr re"
    by (simp add: literal_Compile_def Let_def HasPrefix_def TrimPrefix_def asciiUpper_def asciiLower_def)
  have r: "fst (Search literal_Compile three_entries ''ERR'' ''app'') = Inr [app_entry_2]"
    by (simp add: Search_def Let_def literal_Compile_def HasPrefix_def TrimPrefix_def asciiUpper_def
        asciiLower_def Contains_def three_entries_def AddEntry_def NewManager_def
        NewManagerWithOptions_def db_entry_def app_entry_1_def app_entry_2_def)
  from Search_invalid_pattern [of literal_Compile "''(''" _ three_entries "''app''"] bad
    Search_invalid_pattern [of literal_Compile "''ERR''" _ three_entries "''app''" re] good r
  show ?thesis by simp
qed

section \<open>The claims about the Follower\<close>

text \<open>
  C2, as stated: over all the entries of one source, across every file its patterns
  match, the line numbers increase by one from 1 with no repeats. The source \<open>app\<close>
  matches the files \<open>a.log\<close> and \<open>b.log\<close>; \<open>Tail\<close> gives each file a Stream of its own
  with its own counter, and the first line of each file is sent as line 1 of the
  source \<open>app\<close>.
\<close>

theorem per_source_sequence_counterexample:
  "fst (Tail logs_os NewManager app_cfg) = None
   \<and> streams (snd (Tail logs_os NewManager app_cfg))
       = [''/logs/a.log'' \<mapsto> \<lparr>Config = app_cfg, LineNumber = 0\<rparr>,
          ''/logs/b.log'' \<mapsto> \<lparr>Config = app_cfg, LineNumber = 0\<rparr>]
   \<and> fst (Stream_read \<lparr>Config = app_cfg, LineNumber = 0\<rparr> False ''x\<newline>'' [Grow [] 7])
       = [\<lparr>Timestamp = 7, Source = ''app'', Content = ''x'', Tags = [], Filtered = False,
           LineNumber = 1\<rparr>]
   \<and> fst (Stream_read \<lparr>Config = app_cfg, LineNumber = 0\<rparr> False ''y\<newline>'' [Grow [] 8])
       = [\<lparr>Timestamp = 8, Source = ''app'', Content = ''y'', Tags = [], Filtered = False,
           LineNumber = 1\<rparr>]
   \<and> \<not> distinct (map LogEntry.LineNumber
         (fst (Stream_read \<lparr>Config = app_cfg, LineNumber = 0\<rparr> False ''x\<newline>'' [Grow [] 7])
          @ fst (Stream_read \<lparr>Config = app_cfg, LineNumber = 0\<rparr> False ''y\<newline>'' [Grow [] 8])))"
  by (simp add: Tail_def logs_os_def Matches_def Base_def IsPathSeparator_def addFile_def
      NewManager_def NewManagerWithOptions_def app_cfg_def Stream_read_def poll_def
      read_lines.simps ReadString_def TrimSuffix_def HasSuffix_def newline_def)

text \<open>
  C2, as amended. For every followed file, that is for every Stream as \<open>addFile\<close>
  creates it, and whatever the polling cadence, the content of the file and the
  growth between iterations, the entries the Follower sends are numbered 1, 2, 3, ...
  in the order they are sent, with no gap and no repeat, and each carries the name
  of the stream's source.
\<close>

theorem Stream_read_sequence_per_file:
  "map LogEntry.LineNumber (fst (Stream_read \<lparr>Config = cfg, LineNumber = 0\<rparr> tail fl ticks))
     = [1 ..< Suc (length (fst (Stream_read \<lparr>Config = cfg, LineNumber = 0\<rparr> tail fl ticks)))]
   \<and> map Source (fst (Stream_read \<lparr>Config = cfg, LineNumber = 0\<rparr> tail fl ticks))
     = replicate (length (fst (Stream_read \<lparr>Config = cfg, LineNumber = 0\<rparr> tail fl ticks)))
         (StreamConfig.Name cfg)"
  using read_loop_numbers [of "\<lparr>Config = cfg, LineNumber = 0\<rparr>" fl "if tail then length fl else 0" ticks]
    read_loop_source [of "\<lparr>Config = cfg, LineNumber = 0\<rparr>" fl "if tail then length fl else 0" ticks]
  by (simp add: Stream_read_def)

text \<open>
  C6. The claim: an iteration sends only lines that end in a newline, leaves a
  partial line unread so that its content is sent once the line is complete, and
  moves the cursor to the end of the last complete line. The code at the file
  content \<open>abc\<close>, with no newline yet: the iteration sends nothing, as claimed, but
  moves the cursor to 3, the end of the file. When the writer completes the line with
  \<open>def\<close> and a newline, the next iteration sends \<open>def\<close>; \<open>abc\<close> is never sent.
\<close>

theorem poll_skips_partial_line:
  "poll \<lparr>Config = app_cfg, LineNumber = 0\<rparr> 1 ''abc'' 0
     = ([], \<lparr>Config = app_cfg, LineNumber = 0\<rparr>, 3)
   \<and> poll \<lparr>Config = app_cfg, LineNumber = 0\<rparr> 2 ''abcdef\<newline>'' 3
     = ([\<lparr>Timestamp = 2, Source = ''app'', Content = ''def'', Tags = [], Filtered = False,
          LineNumber = 1\<rparr>],
        \<lparr>Config = app_cfg, LineNumber = 1\<rparr>, 7)
   \<and> fst (Stream_read \<lparr>Config = app_cfg, LineNumber = 0\<rparr> False []
          [Grow ''abc'' 1, Grow ''def\<newline>'' 2])
     = [\<lparr>Timestamp = 2, Source = ''app'', Content = ''def'', Tags = [], Filtered = False,
          LineNumber = 1\<rparr>]"
  by (simp add: app_cfg_def Stream_read_def poll_def read_lines.simps ReadString_def
      TrimSuffix_def HasSuffix_def newline_def)

text \<open>
  C7. In tail-only mode, on a file with any content \<open>pre\<close> when the Follower starts,
  if the bytes appended afterwards, in whatever pieces they arrive between the
  iterations, are the newline-terminated lines \<open>ls\<close>, and no seek or read fails, then
  the Follower sends exactly \<open>length ls\<close> entries: nothing of \<open>pre\<close> is replayed.
\<close>

theorem tail_only_emits_appended_lines:
  assumes "IOError \<notin> set ticks"
    and "concat (map grown ticks) = concat (map (\<lambda>l. l @ [newline]) ls)"
    and "\<forall>l\<in>set ls. newline \<notin> set l"
  shows "length (fst (Stream_read s True pre ticks)) = length ls"
  using read_loop_tail_count [OF assms(1), of s pre] count_terminated_lines [OF assms(3)] assms(2)
  by (simp add: Stream_read_def)

theorem tail_only_emits_appended_lines_witness:
  "IOError \<notin> set [Grow ''he'' 1, Grow ''llo\<newline>wor'' 2, Grow [] 3, Grow ''ld\<newline>'' 4]
   \<and> concat (map grown [Grow ''he'' 1, Grow ''llo\<newline>wor'' 2, Grow [] 3, Grow ''ld\<newline>'' 4])
       = concat (map (\<lambda>l. l @ [newline]) [''hello'', ''world''])
   \<and> length (fst (Stream_read \<lparr>Config = app_cfg, LineNumber = 0\<rparr> True ''old 1\<newline>old 2\<newline>''
        [Grow ''he'' 1, Grow ''llo\<newline>wor'' 2, Grow [] 3, Grow ''ld\<newline>'' 4]))
       = length [''hello'', ''world'']"
  using tail_only_emits_appended_lines
    [of "[Grow ''he'' 1, Grow ''llo\<newline>wor'' 2, Grow [] 3, Grow ''ld\<newline>'' 4]"
        "[''hello'', ''world'']" "\<lparr>Config = app_cfg, LineNumber = 0\<rparr>"
        "''old 1\<newline>old 2\<newline>''"]
  by (simp add: newline_def)

section \<open>The claim about auto-discovery\<close>

lemma existingStreams_lookup:
  "map_of (map (\<lambda>s. (StreamConfig.Name s, True)) strs) name = Some True
     \<longleftrightarrow> name \<in> StreamConfig.Name ` set strs"
  by (induction strs) auto

lemma AutoDiscover_range_streams:
  "AutoDiscover_range exclude existingStreams logDir strs colorIdx files
     = strs @ map (\<lambda>(i, file).
                 \<lparr>StreamConfig.Name = discoveredName file, Path = logDir, Patterns = [Base file],
                  Tags = [], Color = streamColors ! (i mod length streamColors)\<rparr>)
              (enumerate colorIdx
                 (filter (\<lambda>file. exclude (discoveredName file) \<noteq> Some True
                                \<and> existingStreams (discoveredName file) \<noteq> Some True) files))"
proof (induction files arbitrary: strs colorIdx)
  case Nil
  then show ?case by simp
next
  case (Cons f files)
  show ?case
  proof (cases "exclude (discoveredName f) = Some True
                \<or> existingStreams (discoveredName f) = Some True")
    case True
    then show ?thesis using Cons.IH [of strs colorIdx] by auto
  next
    case False
    then show ?thesis
      using Cons.IH [of "strs @ [\<lparr>StreamConfig.Name = discoveredName f, Path = logDir,
                                   Patterns = [Base f], Tags = [],
                                   Color = streamColors ! (colorIdx mod length streamColors)\<rparr>]"
                        "Suc colorIdx"]
      by (simp add: Let_def)
  qed
qed

text \<open>
  C9. When the log directory exists and the glob for \<open>*.log\<close> succeeds, with
  \<open>logFiles\<close> and \<open>txtFiles\<close> the files the two globs find, \<open>AutoDiscover\<close> keeps the
  configured streams and appends one stream for each discovered file, in the order of
  discovery, except the files whose derived name (the base name without its
  extension) is excluded or is the name of a configured stream. The stream of a file
  has the derived name, and the colour \<open>streamColors ! (i mod 6)\<close>, where \<open>i\<close> counts
  the appended streams starting from the number of configured streams.
\<close>

theorem AutoDiscover_streams:
  assumes "\<not> IsNotExist os (discoverDir os cfg)"
    and "filepath_Glob os (filepath_Join os [discoverDir os cfg, ''*.log'']) = Some logFiles"
    and "txtFiles = (case filepath_Glob os (filepath_Join os [discoverDir os cfg, ''*.txt'']) of
                       None \<Rightarrow> [] | Some fs \<Rightarrow> fs)"
  shows "AutoDiscover os cfg exclude =
           (None,
            cfg\<lparr>Config.Streams := Config.Streams cfg @
              map (\<lambda>(i, file).
                     \<lparr>StreamConfig.Name = discoveredName file, Path = discoverDir os cfg,
                      Patterns = [Base file], Tags = [],
                      Color = streamColors ! (i mod length streamColors)\<rparr>)
                (enumerate (length (Config.Streams cfg))
                   (filter (\<lambda>file. exclude (discoveredName file) \<noteq> Some True
                                  \<and> discoveredName file \<notin> StreamConfig.Name ` set (Config.Streams cfg))
                      (logFiles @ txtFiles)))\<rparr>)"
  using assms
  by (simp add: AutoDiscover_def Let_def AutoDiscover_range_streams existingStreams_lookup)

theorem AutoDiscover_streams_witness:
  "\<not> IsNotExist logs_os (discoverDir logs_os logs_cfg)
   \<and> AutoDiscover logs_os logs_cfg logs_exclude =
       (None,
        \<lparr>LogDir = ''/logs'',
         Streams =
           [\<lparr>StreamConfig.Name = ''b'', Path = ''/logs'', Patterns = [''b.log''], Tags = [],
              Color = ''red''\<rparr>,
            \<lparr>StreamConfig.Name = ''a'', Path = ''/logs'', Patterns = [''a.log''], Tags = [],
              Color = ''green''\<rparr>,
            \<lparr>StreamConfig.Name = ''notes'', Path = ''/logs'', Patterns = [''notes.txt''],
              Tags = [], Color = ''yellow''\<rparr>]\<rparr>)"
proof -
  have dir: "discoverDir logs_os logs_cfg = ''/logs''"
    by (simp add: discoverDir_def logs_cfg_def expandPath_def)
  have ex: "\<not> IsNotExist logs_os (discoverDir logs_os logs_cfg)"
    by (simp add: dir) (simp add: logs_os_def)
  have logs: "filepath_Glob logs_os (filepath_Join logs_os [discoverDir logs_os logs_cfg, ''*.log''])
                = Some [''/logs/a.log'', ''/logs/b.log'', ''/logs/skip.log'']"
    by (simp add: dir) (simp add: logs_os_def)
  have txts: "[''/logs/notes.txt'']
                = (case filepath_Glob logs_os
                          (filepath_Join logs_os [discoverDir logs_os logs_cfg, ''*.txt'']) of
                     None \<Rightarrow> [] | Some fs \<Rightarrow> fs)"
    by (simp add: dir) (simp add: logs_os_def)
  have names: "discoveredName ''/logs/a.log'' = ''a''" "discoveredName ''/logs/b.log'' = ''b''"
    "discoveredName ''/logs/skip.log'' = ''skip''" "discoveredName ''/logs/notes.txt'' = ''notes''"
    by (simp_all add: discoveredName_def Base_def Ext_def IsPathSeparator_def Let_def)
  have bases: "Base ''/logs/a.log'' = ''a.log''" "Base ''/logs/notes.txt'' = ''notes.txt''"
    by (simp_all add: Base_def IsPathSeparator_def Let_def)
  note discovered = AutoDiscover_streams [OF ex logs txts, of logs_exclude, unfolded dir]
  from discovered ex show ?thesis
    by (simp add: names bases logs_cfg_def logs_exclude_def streamColors_def enumerate_eq_zip)
qed

section \<open>The claims about groups\<close>

text \<open>
  The group filter in the words of the specification: of the entries a read or a
  search has returned, those whose source is in the group's stream list and whose
  content matches the group's pattern.
\<close>

definition group_filter :: "regexp \<Rightarrow> LogGroup \<Rightarrow> LogEntry list \<Rightarrow> LogEntry list" where
  "group_filter re g returned =
     filter (\<lambda>e. Source e \<in> set (LogGroup.Streams g) \<and> re (Content e)) returned"

lemma group_uri:
  "\<not> HasPrefix (''logdump://group/'' @ name) ''logdump://stream/''"
  "HasPrefix (''logdump://group/'' @ name) ''logdump://group/''"
  "TrimPrefix (''logdump://group/'' @ name) ''logdump://group/'' = name"
  by (simp_all add: HasPrefix_def TrimPrefix_def)

lemma list_ex_stream:
  "list_ex (\<lambda>stream. src = stream \<and> P) strs \<longleftrightarrow> src \<in> set strs \<and> P"
  by (auto simp: list_ex_iff)

lemma handleResourcesRead_group_uri:
  "handleResourcesRead Compile s (Some (''logdump://group/'' @ name))
     = (case logGroups s name of
          Some grp \<Rightarrow>
            (case MustCompile Compile (''(?i)'' @ Pattern grp) of
               Inl p \<Rightarrow> Inl p
             | Inr re \<Rightarrow>
                 (case GetEntries (manager s) [] 100 of
                    (entries, m') \<Rightarrow>
                      Inr (Inr (filter
                             (\<lambda>e. list_ex (\<lambda>stream. Source e = stream \<and> re (Content e))
                                    (LogGroup.Streams grp))
                             entries),
                           s\<lparr>manager := m'\<rparr>)))
        | None \<Rightarrow> Inr (Inl (MCPError (- 32603) (''Group not found: '' @ name)), s))"
  by (simp only: handleResourcesRead_def option.case group_uri if_False if_True Let_def)

text \<open>The read of a group resource applies the group filter to the newest 100 entries.\<close>

lemma handleResourcesRead_group_filter:
  assumes "logGroups s name = Some g" and "Compile (''(?i)'' @ Pattern g) = Inr re"
  shows "handleResourcesRead Compile s (Some (''logdump://group/'' @ name))
           = Inr (Inr (group_filter re g (fst (GetEntries (manager s) [] 100))),
                  s\<lparr>manager := snd (GetEntries (manager s) [] 100)\<rparr>)"
  using assms handleResourcesRead_group_uri [of Compile s name]
  by (simp add: MustCompile_def group_filter_def list_ex_stream split: prod.splits)

lemma literal_Compile_ERR:
  "literal_Compile ''(?i)ERR'' = Inr (\<lambda>s. Contains (ToLower s) ''err'')"
  "literal_Compile ''ERR'' = Inr (\<lambda>s. Contains s ''ERR'')"
  "literal_Compile ''ok'' = Inr (\<lambda>s. Contains s ''ok'')"
  by (simp_all add: literal_Compile_def Let_def HasPrefix_def TrimPrefix_def asciiUpper_def
      asciiLower_def ToLower_def)

lemma Contains_examples:
  "Contains (ToLower ''ERR disk'') ''err''" "\<not> Contains (ToLower ''request ok'') ''err''"
  "Contains (ToLower ''ERR timeout'') ''err''"
  "Contains ''ERR disk'' ''ERR''" "\<not> Contains ''request ok'' ''ERR''"
  "Contains ''ERR timeout'' ''ERR''"
  "\<not> Contains ''ERR disk'' ''ok''" "Contains ''request ok'' ''ok''"
  "\<not> Contains ''ERR timeout'' ''ok''"
  by (simp_all add: Contains_def HasPrefix_def ToLower_def asciiUpper_def asciiLower_def)

lemma buffer_three_entries:
  "buffer three_entries = [db_entry, app_entry_1, app_entry_2]"
  by (simp add: three_entries_def AddEntry_def NewManager_def NewManagerWithOptions_def)

lemma logGroups_groups_server:
  "logGroups groups_server ''errors''
     = Some \<lparr>LogGroup.Name = ''errors'', Pattern = ''ERR'', Color = ''red'', Streams = [''app''],
             CreatedAt = 10\<rparr>"
  "logGroups groups_server ''all''
     = Some \<lparr>LogGroup.Name = ''all'', Pattern = ''ERR'', Color = ''cyan'',
             Streams = [''app'', ''db''], CreatedAt = 11\<rparr>"
  "manager groups_server = three_entries"
  by (simp_all add: groups_server_def toolCreateGroup_def TrimSpace_def asciiSpace_def
      space2_def space3_def)

lemma entry_fields:
  "Source db_entry = ''db''" "Source app_entry_1 = ''app''" "Source app_entry_2 = ''app''"
  "Content db_entry = ''ERR disk''" "Content app_entry_1 = ''request ok''"
  "Content app_entry_2 = ''ERR timeout''"
  by (simp_all add: db_entry_def app_entry_1_def app_entry_2_def)

text \<open>
  C3. The claim: with a group filter, read, grep and the read of a group resource
  all return exactly the already-returned entries whose source is in the group's
  stream list and whose content matches the group's pattern. The group \<open>errors\<close> has
  the pattern \<open>ERR\<close> and the stream list \<open>app\<close>; the group \<open>all\<close> has the same
  pattern and the streams \<open>app\<close> and \<open>db\<close>. The read of the resource of \<open>errors\<close>
  returns the one matching entry of \<open>app\<close>. The read tool with the group \<open>errors\<close>
  returns the entry of \<open>db\<close> as well. The grep tool with the group \<open>all\<close> and the
  pattern \<open>ERR\<close> returns nothing, since it searches the one source named \<open>app,db\<close>;
  with the group \<open>errors\<close> and the pattern \<open>ok\<close> it returns an entry that does not
  match the group's pattern.
\<close>

theorem tools_ignore_group_filter:
  "handleResourcesRead literal_Compile groups_server (Some ''logdump://group/errors'')
     = Inr (Inr [app_entry_2],
            groups_server\<lparr>manager := three_entries\<lparr>bufferMu := bufferMu three_entries @ [RLock, RUnlock]\<rparr>\<rparr>)
   \<and> toolRead literal_Compile groups_server [] ''errors'' None
     = Inr ([db_entry, app_entry_2],
            groups_server\<lparr>manager := three_entries\<lparr>bufferMu := bufferMu three_entries @ [RLock, RUnlock]\<rparr>\<rparr>)
   \<and> toolGrep literal_Compile groups_server ''ERR'' [] ''all'' None None
     = (Inr [],
        groups_server\<lparr>manager := three_entries\<lparr>bufferMu := bufferMu three_entries @ [RLock, RUnlock]\<rparr>\<rparr>)
   \<and> toolGrep literal_Compile groups_server ''ok'' [] ''errors'' None None
     = (Inr [app_entry_1],
        groups_server\<lparr>manager := three_entries\<lparr>bufferMu := bufferMu three_entries @ [RLock, RUnlock]\<rparr>\<rparr>)"
proof -
  have 1: "handleResourcesRead literal_Compile groups_server (Some ''logdump://group/errors'')
     = Inr (Inr [app_entry_2],
            groups_server\<lparr>manager := three_entries\<lparr>bufferMu := bufferMu three_entries @ [RLock, RUnlock]\<rparr>\<rparr>)"
    by (simp add: handleResourcesRead_def HasPrefix_def TrimPrefix_def logGroups_groups_server
        MustCompile_def literal_Compile_ERR GetEntries_def Let_def buffer_three_entries
        entry_fields Contains_examples)
  have 2: "toolRead literal_Compile groups_server [] ''errors'' None
     = Inr ([db_entry, app_entry_2],
            groups_server\<lparr>manager := three_entries\<lparr>bufferMu := bufferMu three_entries @ [RLock, RUnlock]\<rparr>\<rparr>)"
    by (simp add: toolRead_def logGroups_groups_server MustCompile_def literal_Compile_ERR
        GetEntries_def Let_def buffer_three_entries entry_fields Contains_examples)
  have 3: "toolGrep literal_Compile groups_server ''ERR'' [] ''all'' None None
     = (Inr [],
        groups_server\<lparr>manager := three_entries\<lparr>bufferMu := bufferMu three_entries @ [RLock, RUnlock]\<rparr>\<rparr>)"
    by (simp add: toolGrep_def logGroups_groups_server Search_def literal_Compile_ERR Let_def
        buffer_three_entries entry_fields Contains_examples)
  have 4: "toolGrep literal_Compile groups_server ''ok'' [] ''errors'' None None
     = (Inr [app_entry_1],
        groups_server\<lparr>manager := three_entries\<lparr>bufferMu := bufferMu three_entries @ [RLock, RUnlock]\<rparr>\<rparr>)"
    by (simp add: toolGrep_def logGroups_groups_server Search_def literal_Compile_ERR Let_def
        buffer_three_entries entry_fields Contains_examples)
  show ?thesis by (rule conjI [OF 1 conjI [OF 2 conjI [OF 3 4]]])
qed

text \<open>
  C10. \<open>toolCreateGroup\<close> stores any pattern. When the pattern of the created group,
  after the flag \<open>(?i)\<close>, does not compile, a read with that group as filter and a
  read of the group's resource both panic; neither returns a response. Such a
  pattern exists: \<open>(\<close>.
\<close>

theorem invalid_group_pattern_panics:
  assumes "Compile (''(?i)'' @ pattern) = Inl err" and "name \<noteq> []" and "pattern \<noteq> []"
  shows "toolRead Compile (toolCreateGroup s name pattern color streamsStr now) source name l
           = Inl (Panic err)
         \<and> handleResourcesRead Compile (toolCreateGroup s name pattern color streamsStr now)
             (Some (''logdump://group/'' @ name))
           = Inl (Panic err)"
proof -
  let ?s = "toolCreateGroup s name pattern color streamsStr now"
  obtain g where g: "logGroups ?s name = Some g" and p: "Pattern g = pattern"
    by (simp add: toolCreateGroup_def Let_def)
  have must: "MustCompile Compile (''(?i)'' @ Pattern g) = Inl (Panic err)"
    using assms(1) p by (simp add: MustCompile_def)
  have 1: "toolRead Compile ?s source name l = Inl (Panic err)"
    using g p must assms(2,3) by (simp add: toolRead_def Let_def split: prod.splits)
  have 2: "handleResourcesRead Compile ?s (Some (''logdump://group/'' @ name)) = Inl (Panic err)"
    using g must handleResourcesRead_group_uri [of Compile ?s name] by simp
  from 1 2 show ?thesis by simp
qed

theorem invalid_group_pattern_panics_witness:
  "literal_Compile (''(?i)'' @ ''('') = Inl ''error parsing regexp: missing closing ): `(?i)(`''
   \<and> toolRead literal_Compile (toolCreateGroup groups_server ''bad'' ''('' [] [] 12) [] ''bad'' None
       = Inl (Panic ''error parsing regexp: missing closing ): `(?i)(`'')
   \<and> handleResourcesRead literal_Compile (toolCreateGroup groups_server ''bad'' ''('' [] [] 12)
         (Some ''logdump://group/bad'')
       = Inl (Panic ''error parsing regexp: missing closing ): `(?i)(`'')"
proof -
  have bad: "literal_Compile (''(?i)'' @ ''('')
               = Inl ''error parsing regexp: missing closing ): `(?i)(`''"
    by (simp add: literal_Compile_def Let_def HasPrefix_def TrimPrefix_def asciiUpper_def
        asciiLower_def)
  from invalid_group_pattern_panics
         [of literal_Compile "''(''" _ "''bad''" groups_server "[]" "[]" 12 "[]" None, OF bad] bad
  show ?thesis by simp
qed

end
